theory Spec2Isabelle
  imports Complex_Main "HOL-Library.Log_Nat"
begin

section \<open>JavaScript numbers\<close>

text \<open>
  The component computes with JavaScript numbers, the double precision numbers of
  IEEE 754. A number is \<open>NaN\<close>, one of the two infinities, or a finite double, which is
  kept as the rational it denotes. The result of every arithmetic operation is rounded to
  the nearest double, ties to the even significand, and overflows to an infinity. The
  sign of zero is not modelled: no modelled operation divides by a computed zero.
\<close>

datatype jsnum = NaN | NegInf | Fin rat | PosInf

text \<open>The nearest integer, ties to the even one.\<close>

definition roundHalfEven :: "rat \<Rightarrow> int" where
  "roundHalfEven x =
     (let n = \<lfloor>x\<rfloor>; d = x - of_int n
      in if d < 1 / 2 then n else if 1 / 2 < d then n + 1 else if even n then n else n + 1)"

text \<open>
  Doubles are multiples of \<open>2^-1074\<close> with a significand of at most 53 bits. For a
  magnitude \<open>t\<close> counted in units of \<open>2^-1074\<close>, \<open>shiftOf t\<close> is the number of
  low bits that a 53-bit significand cannot hold, and \<open>roundScaled t\<close> the nearest
  multiple of \<open>2 ^ shiftOf t\<close>.
\<close>

definition shiftOf :: "rat \<Rightarrow> nat" where
  "shiftOf t = nat (bitlen \<lfloor>t\<rfloor> - 53)"

definition roundScaled :: "rat \<Rightarrow> int" where
  "roundScaled t = roundHalfEven (t / 2 ^ shiftOf t) * 2 ^ shiftOf t"

definition minExponent :: nat where
  "minExponent = 1074"

definition maxExponent :: nat where
  "maxExponent = 1024"

text \<open>The rounding of a magnitude, before the overflow test.\<close>

definition roundMagnitude :: "rat \<Rightarrow> rat" where
  "roundMagnitude a = of_int (roundScaled (a * 2 ^ minExponent)) / 2 ^ minExponent"

text \<open>
  The double that an exact result becomes: a rounded magnitude of \<open>2^1024\<close> or more
  is an infinity.
\<close>

definition roundDouble :: "rat \<Rightarrow> jsnum" where
  "roundDouble x =
     (let m = roundMagnitude \<bar>x\<bar>
      in if 2 ^ maxExponent \<le> m then (if 0 < x then PosInf else NegInf)
         else Fin (if 0 \<le> x then m else - m))"

text \<open>Addition \<open>a + b\<close>.\<close>

fun jsadd :: "jsnum \<Rightarrow> jsnum \<Rightarrow> jsnum" where
  "jsadd NaN y = NaN"
| "jsadd (Fin a) NaN = NaN"
| "jsadd (Fin a) NegInf = NegInf"
| "jsadd (Fin a) (Fin b) = roundDouble (a + b)"
| "jsadd (Fin a) PosInf = PosInf"
| "jsadd PosInf NaN = NaN"
| "jsadd PosInf NegInf = NaN"
| "jsadd PosInf (Fin b) = PosInf"
| "jsadd PosInf PosInf = PosInf"
| "jsadd NegInf NaN = NaN"
| "jsadd NegInf NegInf = NegInf"
| "jsadd NegInf (Fin b) = NegInf"
| "jsadd NegInf PosInf = NaN"

text \<open>Multiplication \<open>a * b\<close>: an infinity times zero is \<open>NaN\<close>.\<close>

fun jsmul :: "jsnum \<Rightarrow> jsnum \<Rightarrow> jsnum" where
  "jsmul NaN y = NaN"
| "jsmul (Fin a) NaN = NaN"
| "jsmul (Fin a) (Fin b) = roundDouble (a * b)"
| "jsmul (Fin a) PosInf = (if a = 0 then NaN else if 0 < a then PosInf else NegInf)"
| "jsmul (Fin a) NegInf = (if a = 0 then NaN else if 0 < a then NegInf else PosInf)"
| "jsmul PosInf NaN = NaN"
| "jsmul PosInf (Fin b) = (if b = 0 then NaN else if 0 < b then PosInf else NegInf)"
| "jsmul PosInf PosInf = PosInf"
| "jsmul PosInf NegInf = NegInf"
| "jsmul NegInf NaN = NaN"
| "jsmul NegInf (Fin b) = (if b = 0 then NaN else if 0 < b then NegInf else PosInf)"
| "jsmul NegInf PosInf = NegInf"
| "jsmul NegInf NegInf = PosInf"

text \<open>
  Division \<open>a / b\<close>. Dividing by zero does not fail in JavaScript: a non-zero
  number over zero is an infinity and zero over zero is \<open>NaN\<close>.
\<close>

fun jsdiv :: "jsnum \<Rightarrow> jsnum \<Rightarrow> jsnum" where
  "jsdiv NaN y = NaN"
| "jsdiv (Fin a) NaN = NaN"
| "jsdiv (Fin a) (Fin b) =
     (if b = 0 then (if a = 0 then NaN else if 0 < a then PosInf else NegInf)
      else roundDouble (a / b))"
| "jsdiv (Fin a) PosInf = Fin 0"
| "jsdiv (Fin a) NegInf = Fin 0"
| "jsdiv PosInf (Fin b) = (if 0 \<le> b then PosInf else NegInf)"
| "jsdiv PosInf y = NaN"
| "jsdiv NegInf (Fin b) = (if 0 \<le> b then NegInf else PosInf)"
| "jsdiv NegInf y = NaN"

text \<open>The order of the numbers that are not \<open>NaN\<close>.\<close>

fun jsle :: "jsnum \<Rightarrow> jsnum \<Rightarrow> bool" where
  "jsle NaN y = False"
| "jsle x NaN = False"
| "jsle NegInf y = True"
| "jsle x PosInf = True"
| "jsle (Fin a) (Fin b) = (a \<le> b)"
| "jsle x y = False"

text \<open>\<open>Math.max\<close> and \<open>Math.min\<close> of two arguments: \<open>NaN\<close> if either is.\<close>

definition Math_max :: "jsnum \<Rightarrow> jsnum \<Rightarrow> jsnum" where
  "Math_max a b = (if a = NaN \<or> b = NaN then NaN else if jsle a b then b else a)"

definition Math_min :: "jsnum \<Rightarrow> jsnum \<Rightarrow> jsnum" where
  "Math_min a b = (if a = NaN \<or> b = NaN then NaN else if jsle a b then a else b)"

text \<open>Truthiness of a number, as \<open>if (x)\<close> tests it: zero and \<open>NaN\<close> are falsy.\<close>

definition truthy :: "jsnum \<Rightarrow> bool" where
  "truthy x = (x \<noteq> NaN \<and> x \<noteq> Fin 0)"


text \<open>The numbers that are not negative: the finite ones from zero on, and \<open>Infinity\<close>.\<close>

definition nonNegNum :: "jsnum \<Rightarrow> bool" where
  "nonNegNum v = (case v of Fin r \<Rightarrow> 0 \<le> r | PosInf \<Rightarrow> True | _ \<Rightarrow> False)"


section \<open>File metadata and the aggregate progress\<close>

text \<open>
  A \<open>FileMeta\<close> object. \<open>bytesTotal\<close> is \<open>None\<close> while the size is unknown
  (\<open>undefined\<close> or \<open>null\<close> in the object); the byte counts are finite numbers of
  either sign.
\<close>

record FileMeta =
  url :: string
  bytesTotal :: "rat option"
  bytesDownloaded :: rat
  "done" :: bool

text \<open>\<open>const pieceValue = 1 / this.internal.files.length\<close>\<close>

definition pieceValue :: "FileMeta list \<Rightarrow> jsnum" where
  "pieceValue files = jsdiv (Fin 1) (Fin (of_nat (length files)))"

text \<open>
  The callback given to \<open>reduce\<close> in \<open>getProgress\<close>, with \<open>pieceValue\<close> as
  \<open>pv\<close>. The test \<open>!fileMeta.bytesTotal\<close> holds for an unknown and for a zero
  total, so the division is reached only with a known total that is not zero.
\<close>

definition reducer :: "jsnum \<Rightarrow> jsnum \<Rightarrow> FileMeta \<Rightarrow> jsnum" where
  "reducer pv percentage fileMeta =
     (if done fileMeta then jsadd percentage pv
      else (case bytesTotal fileMeta of
              None \<Rightarrow> jsadd percentage (Fin 0)
            | Some tot \<Rightarrow>
                if bytesDownloaded fileMeta = 0 \<or> tot = 0 then jsadd percentage (Fin 0)
                else (let percentageOfCurrent = jsdiv (Fin (bytesDownloaded fileMeta)) (Fin tot)
                      in jsadd percentage (jsmul percentageOfCurrent pv))))"

text \<open>\<open>this.internal.files.reduce(..., 0)\<close>: the value before clamping.\<close>

definition percentageProgress :: "FileMeta list \<Rightarrow> jsnum" where
  "percentageProgress files = foldl (reducer (pieceValue files)) (Fin 0) files"

text \<open>\<open>getProgress()\<close>: \<open>Math.max(0, Math.min(percentageProgress, 100))\<close>.\<close>

definition getProgress :: "FileMeta list \<Rightarrow> jsnum" where
  "getProgress files = Math_max (Fin 0) (Math_min (percentageProgress files) (Fin 100))"

section \<open>The shares of the files\<close>

text \<open>
  The share of one file in the sum, as the specification words it for a set of \<open>n\<close>
  files: \<open>1/n\<close> for a finished file, \<open>0\<close> for an unfinished file whose total is
  unknown or zero, and \<open>(bytesDownloaded / bytesTotal) * (1/n)\<close> otherwise, each
  computed as JavaScript computes it.
\<close>

definition specContribution :: "nat \<Rightarrow> FileMeta \<Rightarrow> jsnum" where
  "specContribution n fileMeta =
     (if done fileMeta then jsdiv (Fin 1) (Fin (of_nat n))
      else (case bytesTotal fileMeta of
              None \<Rightarrow> Fin 0
            | Some tot \<Rightarrow>
                if tot = 0 then Fin 0
                else jsmul (jsdiv (Fin (bytesDownloaded fileMeta)) (Fin tot))
                       (jsdiv (Fin 1) (Fin (of_nat n)))))"

text \<open>What the callback of \<open>getProgress\<close> adds for one file.\<close>

definition contribution :: "jsnum \<Rightarrow> FileMeta \<Rightarrow> jsnum" where
  "contribution pv fileMeta =
     (if done fileMeta then pv
      else (case bytesTotal fileMeta of
              None \<Rightarrow> Fin 0
            | Some tot \<Rightarrow>
                if bytesDownloaded fileMeta = 0 \<or> tot = 0 then Fin 0
                else jsmul (jsdiv (Fin (bytesDownloaded fileMeta)) (Fin tot)) pv))"

text \<open>A JavaScript array has fewer than \<open>2^32\<close> elements.\<close>

definition arrayLength :: "'a list \<Rightarrow> bool" where
  "arrayLength xs = (length xs < 2 ^ 32)"


text \<open>
  The relation between an earlier and a later state of one file that a successful
  \<open>storeChunk\<close> call produces: the same url, no fewer bytes downloaded, \<open>done\<close> only
  turning from false to true (and then with \<open>bytesDownloaded\<close> equal to
  \<open>bytesTotal\<close>), and \<open>bytesTotal\<close> either unchanged or turning from unknown to known.
\<close>

definition dominates :: "FileMeta \<Rightarrow> FileMeta \<Rightarrow> bool" where
  "dominates a b =
     (url b = url a
      \<and> bytesDownloaded a \<le> bytesDownloaded b
      \<and> (done a \<longrightarrow> done b)
      \<and> (\<not> done a \<and> done b \<longrightarrow> bytesTotal b = Some (bytesDownloaded b))
      \<and> (bytesTotal b = bytesTotal a \<or> (bytesTotal a = None \<and> bytesTotal b \<noteq> None)))"

text \<open>Byte counts that are not negative.\<close>

definition nonNegative :: "FileMeta \<Rightarrow> bool" where
  "nonNegative fileMeta =
     (0 \<le> bytesDownloaded fileMeta
      \<and> (case bytesTotal fileMeta of None \<Rightarrow> True | Some tot \<Rightarrow> 0 \<le> tot))"


section \<open>Merging the resolved files with the stored ones\<close>

text \<open>
  \<open>init\<close> builds a plain object keyed by url from the stored records with
  \<open>Object.fromEntries\<close> and reads it with \<open>dbFilesByUrl[fileMeta.url]\<close>.
  \<open>Object.fromEntries\<close> defines the entries in order, so that a later entry
  replaces an earlier one with the same key.
\<close>

definition fromEntries :: "(string \<times> FileMeta) list \<Rightarrow> (string \<rightharpoonup> FileMeta)" where
  "fromEntries tuples = foldl (\<lambda>obj (k, v). obj(k \<mapsto> v)) Map.empty tuples"

text \<open>
  Reading a property of a plain object looks at the object's own properties first and
  then at \<open>Object.prototype\<close>, whose properties are these (each one a function or an
  object, hence truthy).
\<close>

definition objectPrototypeKeys :: "string list" where
  "objectPrototypeKeys =
     [''constructor'', ''__defineGetter__'', ''__defineSetter__'', ''hasOwnProperty'',
      ''__lookupGetter__'', ''__lookupSetter__'', ''isPrototypeOf'',
      ''propertyIsEnumerable'', ''toString'', ''valueOf'', ''__proto__'',
      ''toLocaleString'']"

text \<open>
  What an element of the working set can be: a \<open>FileMeta\<close> object, or the built-in
  value that \<open>Object.prototype\<close> holds under the given key.
\<close>

datatype fileEntry = Meta FileMeta | Inherited string

text \<open>\<open>obj[key]\<close>, with \<open>None\<close> for \<open>undefined\<close>.\<close>

definition getProperty :: "(string \<rightharpoonup> FileMeta) \<Rightarrow> string \<Rightarrow> fileEntry option" where
  "getProperty obj key =
     (case obj key of
        Some fileMeta \<Rightarrow> Some (Meta fileMeta)
      | None \<Rightarrow> if key \<in> set objectPrototypeKeys then Some (Inherited key) else None)"

definition dbFilesByUrl :: "FileMeta list \<Rightarrow> (string \<rightharpoonup> FileMeta)" where
  "dbFilesByUrl dbFiles = fromEntries (map (\<lambda>fileMeta. (url fileMeta, fileMeta)) dbFiles)"

text \<open>
  \<open>files.map((fileMeta) => (dbFilesByUrl[fileMeta.url] ? dbFilesByUrl[fileMeta.url] : fileMeta))\<close>:
  every value that the lookup can return is truthy, so the fresh object is kept exactly
  when the lookup is \<open>undefined\<close>.
\<close>

definition filesWithStateUpdatedFromDb :: "FileMeta list \<Rightarrow> FileMeta list \<Rightarrow> fileEntry list" where
  "filesWithStateUpdatedFromDb files dbFiles =
     map (\<lambda>fileMeta. case getProperty (dbFilesByUrl dbFiles) (url fileMeta) of
                        Some entry \<Rightarrow> entry
                      | None \<Rightarrow> Meta fileMeta) files"

text \<open>The url identifies the record within a list of files.\<close>

definition urlIdentifies :: "FileMeta list \<Rightarrow> bool" where
  "urlIdentifies files =
     (\<forall>f \<in> set files. \<forall>g \<in> set files. url f = url g \<longrightarrow> f = g)"

text \<open>
  Modelled from the spec: the URL resolver (\<open>getURLsForDownload\<close>) is not part of the
  modelled source. It creates every \<open>FileMeta\<close> as a fresh stub: \<open>bytesDownloaded = 0\<close>,
  \<open>done = false\<close>, \<open>bytesTotal\<close> unknown.
\<close>

definition isFreshStub :: "FileMeta \<Rightarrow> bool" where
  "isFreshStub fileMeta =
     (bytesDownloaded fileMeta = 0 \<and> \<not> done fileMeta \<and> bytesTotal fileMeta = None)"

text \<open>The last stored record with the given url, if there is one.\<close>

definition lastWithUrl :: "FileMeta list \<Rightarrow> string \<Rightarrow> FileMeta option" where
  "lastWithUrl dbFiles u =
     (let ps = filter (\<lambda>p. url p = u) dbFiles in if ps = [] then None else Some (last ps))"


section \<open>The component\<close>

text \<open>
  A value handed to \<open>parseFloat\<close> or to \<open>setAttribute\<close>. Both work on the string
  form of the value. The string form of a number reads back as that number, so a number
  stands for its string form here.
\<close>

datatype jsval = JUndefined | JNull | JBool bool | JNum jsnum | JStr string

text \<open>
  \<open>parseFloat\<close>. The number that the longest numeric prefix of a string denotes is
  the parameter \<open>parseStr\<close> (\<open>NaN\<close> when the string has no such prefix); the string
  forms of \<open>undefined\<close>, \<open>null\<close> and the booleans have none.
\<close>

definition parseFloat :: "(string \<Rightarrow> jsnum) \<Rightarrow> jsval \<Rightarrow> jsnum" where
  "parseFloat parseStr v =
     (case v of
        JNum x \<Rightarrow> x
      | JStr s \<Rightarrow> parseStr s
      | _ \<Rightarrow> NaN)"

text \<open>
  The conversion of a string to a number that an assignment to the \<open>value\<close> of the
  progress element performs. The number that a whole string denotes is the parameter
  \<open>toNum\<close> (\<open>NaN\<close> when the string is not a number).
\<close>

definition stringToNumber :: "(string \<Rightarrow> jsnum) \<Rightarrow> jsval \<Rightarrow> jsnum" where
  "stringToNumber toNum v =
     (case v of
        JNum x \<Rightarrow> x
      | JStr s \<Rightarrow> toNum s
      | _ \<Rightarrow> NaN)"

text \<open>The stored \<open>VideoMeta\<close> object; \<open>videoDone\<close> is \<open>None\<close> when it has no \<open>done\<close> property.\<close>

record VideoMeta =
  videoDone :: "bool option"

text \<open>
  The state of the element that the modelled methods read and write: the two reflected
  attributes (\<open>None\<close> when the attribute is not set), \<open>internal.meta\<close> (\<open>None\<close> for
  \<open>undefined\<close>), \<open>internal.files\<close>, the button and the value of the progress
  element (\<open>None\<close> before \<open>render\<close> has created it).
\<close>

record Component =
  stateAttr :: "string option"
  progressAttr :: "jsval option"
  internalMeta :: "VideoMeta option"
  internalFiles :: "FileMeta list"
  buttonDisabled :: bool
  buttonInnerHTML :: string
  progressElementValue :: "rat option"

text \<open>
  \<open>attributeChangedCallback\<close>: \<open>this.internal.elements.progress.value = value\<close> for
  the attribute \<open>progress\<close>. The assignment throws when there is no progress element
  yet (before \<open>render\<close>) and when the value is not a finite number (\<open>NaN\<close> or an
  infinity); the element then keeps its value, and the caller of \<open>setAttribute\<close> does
  not see the exception.
\<close>

definition attributeChangedCallback ::
  "(string \<Rightarrow> jsnum) \<Rightarrow> string \<Rightarrow> jsval \<Rightarrow> Component \<Rightarrow> Component" where
  "attributeChangedCallback toNum name v c =
     (if name = ''progress'' then
        (case progressElementValue c of
           None \<Rightarrow> c
         | Some old \<Rightarrow>
             (case stringToNumber toNum v of
                Fin r \<Rightarrow> c\<lparr>progressElementValue := Some r\<rparr>
              | _ \<Rightarrow> c))
      else c)"

text \<open>\<open>get state\<close> and \<open>set state\<close>\<close>

definition state_get :: "Component \<Rightarrow> string option" where
  "state_get c = stateAttr c"

definition state_set :: "(string \<Rightarrow> jsnum) \<Rightarrow> string \<Rightarrow> Component \<Rightarrow> Component" where
  "state_set toNum s c =
     attributeChangedCallback toNum ''state'' (JStr s) (c\<lparr>stateAttr := Some s\<rparr>)"

text \<open>\<open>get progress\<close>: \<open>getAttribute\<close> gives \<open>null\<close> for an attribute that is not set.\<close>

definition progress_get :: "(string \<Rightarrow> jsnum) \<Rightarrow> Component \<Rightarrow> jsnum" where
  "progress_get parseStr c =
     (let progress = parseFloat parseStr (case progressAttr c of None \<Rightarrow> JNull | Some v \<Rightarrow> v);
          clampedProgress = Math_min (Math_max (Fin 0) progress) (Fin 100)
      in clampedProgress)"

text \<open>\<open>set progress\<close>\<close>

definition progress_set ::
  "(string \<Rightarrow> jsnum) \<Rightarrow> (string \<Rightarrow> jsnum) \<Rightarrow> jsval \<Rightarrow> Component \<Rightarrow> Component" where
  "progress_set parseStr toNum progress c =
     (let progressFloat = parseFloat parseStr progress;
          clampedProgress = Math_min (Math_max (Fin 0) progressFloat) (Fin 100)
      in attributeChangedCallback toNum ''progress'' (JNum clampedProgress)
           (c\<lparr>progressAttr := Some (JNum clampedProgress)\<rparr>))"

text \<open>\<open>getMeta()\<close>: \<open>this.internal.meta || {}\<close>\<close>

definition getMeta :: "Component \<Rightarrow> VideoMeta" where
  "getMeta c = (case internalMeta c of None \<Rightarrow> \<lparr>videoDone = None\<rparr> | Some m \<Rightarrow> m)"

text \<open>\<open>setMeta(meta)\<close>\<close>

definition setMeta :: "VideoMeta option \<Rightarrow> Component \<Rightarrow> Component" where
  "setMeta m c = c\<lparr>internalMeta := m\<rparr>"

text \<open>\<open>setDownloadState()\<close>\<close>

definition setDownloadState ::
  "(string \<Rightarrow> jsnum) \<Rightarrow> (string \<Rightarrow> jsnum) \<Rightarrow> Component \<Rightarrow> Component" where
  "setDownloadState parseStr toNum c =
     (let c1 = c\<lparr>buttonDisabled := False\<rparr>;
          videoMeta = getMeta c1;
          downloadProgress = getProgress (internalFiles c1)
      in if videoDone videoMeta = Some True then state_set toNum ''done'' c1
         else if truthy downloadProgress then
           (progress_set parseStr toNum (JNum downloadProgress) (state_set toNum ''partial'' c1))
             \<lparr>buttonInnerHTML := ''Resume Download''\<rparr>
         else state_set toNum ''ready'' c1)"


section \<open>Properties of the rounding\<close>

text \<open>
  Rounding is monotone, leaves what is already rounded, keeps the sign, and is exact on
  a number with at most 53 significant bits.
\<close>

lemma roundHalfEven_bounds: "\<lfloor>x\<rfloor> \<le> roundHalfEven x \<and> roundHalfEven x \<le> \<lfloor>x\<rfloor> + 1"
  by (simp add: roundHalfEven_def Let_def)

lemma roundHalfEven_of_int: "roundHalfEven (of_int n) = n"
  by (simp add: roundHalfEven_def)

lemma roundHalfEven_mono:
  assumes "x \<le> y"
  shows "roundHalfEven x \<le> roundHalfEven y"
proof (cases "\<lfloor>x\<rfloor> = \<lfloor>y\<rfloor>")
  case True
  with assms show ?thesis by (auto simp add: roundHalfEven_def Let_def)
next
  case False
  with assms have "\<lfloor>x\<rfloor> + 1 \<le> \<lfloor>y\<rfloor>" using floor_mono [of x y] by simp
  then show ?thesis
    using roundHalfEven_bounds [of x] roundHalfEven_bounds [of y] by linarith
qed

text \<open>The shift of \<open>t\<close> is the least \<open>k\<close> with \<open>t < 2 ^ (53 + k)\<close>.\<close>

lemma shiftOf_le_iff: "shiftOf t \<le> k \<longleftrightarrow> t < 2 ^ (53 + k)"
proof -
  have "shiftOf t \<le> k \<longleftrightarrow> bitlen \<lfloor>t\<rfloor> \<le> 53 + int k"
    by (auto simp add: shiftOf_def)
  also have "\<dots> \<longleftrightarrow> \<lfloor>t\<rfloor> < 2 ^ (53 + k)"
    by (simp add: bitlen_le_iff_power nat_add_distrib)
  also have "\<dots> \<longleftrightarrow> t < 2 ^ (53 + k)"
    using floor_less_iff [of t "2 ^ (53 + k)"] by simp
  finally show ?thesis .
qed

lemma shiftOf_upper: "t < 2 ^ (53 + shiftOf t)"
  using shiftOf_le_iff [of t "shiftOf t"] by simp

lemma shiftOf_lower:
  assumes "0 < shiftOf t"
  shows "2 ^ (52 + shiftOf t) \<le> t"
proof -
  from assms obtain j where j: "shiftOf t = Suc j" by (cases "shiftOf t") simp_all
  then have "\<not> shiftOf t \<le> j" by simp
  then have "\<not> t < 2 ^ (53 + j)" using shiftOf_le_iff [of t j] by blast
  with j show ?thesis by (simp add: not_less)
qed

lemma shiftOf_mono: "t \<le> u \<Longrightarrow> shiftOf t \<le> shiftOf u"
  using shiftOf_le_iff [of t "shiftOf u"] shiftOf_upper [of u] by simp

lemma shiftOf_eqI:
  assumes "t < 2 ^ (53 + k)" and "0 < k \<Longrightarrow> 2 ^ (52 + k) \<le> t"
  shows "shiftOf t = k"
proof (rule antisym)
  show "shiftOf t \<le> k" using assms(1) by (simp add: shiftOf_le_iff)
  show "k \<le> shiftOf t"
  proof (cases k)
    case 0
    then show ?thesis by simp
  next
    case (Suc j)
    with assms(2) have "\<not> t < 2 ^ (53 + j)" by (simp add: not_less)
    then have "\<not> shiftOf t \<le> j" by (simp add: shiftOf_le_iff)
    with Suc show ?thesis by simp
  qed
qed

lemma roundScaled_upper: "roundScaled t \<le> 2 ^ (53 + shiftOf t)"
proof -
  have "t / 2 ^ shiftOf t \<le> 2 ^ 53"
    using shiftOf_upper [of t] by (simp add: divide_le_eq power_add mult.commute)
  then have "roundHalfEven (t / 2 ^ shiftOf t) \<le> roundHalfEven (of_int (2 ^ 53))"
    using roundHalfEven_mono by fastforce
  then have "roundHalfEven (t / 2 ^ shiftOf t) \<le> 2 ^ 53"
    by (simp only: roundHalfEven_of_int)
  then have "roundHalfEven (t / 2 ^ shiftOf t) * 2 ^ shiftOf t \<le> 2 ^ 53 * 2 ^ shiftOf t"
    by (rule mult_right_mono) simp
  then show ?thesis by (simp add: roundScaled_def power_add)
qed

lemma roundScaled_lower:
  assumes "0 < shiftOf t"
  shows "2 ^ (52 + shiftOf t) \<le> roundScaled t"
proof -
  have "2 ^ 52 \<le> t / 2 ^ shiftOf t"
    using shiftOf_lower [OF assms] by (simp add: le_divide_eq power_add mult.commute)
  then have "roundHalfEven (of_int (2 ^ 52)) \<le> roundHalfEven (t / 2 ^ shiftOf t)"
    using roundHalfEven_mono by fastforce
  then have "2 ^ 52 \<le> roundHalfEven (t / 2 ^ shiftOf t)"
    by (simp only: roundHalfEven_of_int)
  then have "2 ^ 52 * 2 ^ shiftOf t \<le> roundHalfEven (t / 2 ^ shiftOf t) * 2 ^ shiftOf t"
    by (rule mult_right_mono) simp
  then show ?thesis by (simp add: roundScaled_def power_add)
qed

lemma roundScaled_nonneg: "0 \<le> t \<Longrightarrow> 0 \<le> roundScaled t"
proof -
  assume "0 \<le> t"
  then have "0 \<le> t / 2 ^ shiftOf t" by simp
  then have "roundHalfEven (of_int 0) \<le> roundHalfEven (t / 2 ^ shiftOf t)"
    using roundHalfEven_mono by fastforce
  then have "0 \<le> roundHalfEven (t / 2 ^ shiftOf t)" by (simp only: roundHalfEven_of_int)
  then show ?thesis by (simp add: roundScaled_def)
qed

lemma roundScaled_mono:
  assumes "t \<le> u"
  shows "roundScaled t \<le> roundScaled u"
proof (cases "shiftOf t = shiftOf u")
  case True
  from assms have "t / 2 ^ shiftOf u \<le> u / 2 ^ shiftOf u" by (simp add: divide_right_mono)
  then have "roundHalfEven (t / 2 ^ shiftOf u) \<le> roundHalfEven (u / 2 ^ shiftOf u)"
    by (rule roundHalfEven_mono)
  then have "roundHalfEven (t / 2 ^ shiftOf u) * 2 ^ shiftOf u
      \<le> roundHalfEven (u / 2 ^ shiftOf u) * 2 ^ shiftOf u"
    by (rule mult_right_mono) simp
  with True show ?thesis by (simp add: roundScaled_def)
next
  case False
  with shiftOf_mono [OF assms] have lt: "shiftOf t < shiftOf u" by simp
  then have "0 < shiftOf u" by simp
  then have "(2::int) ^ (52 + shiftOf u) \<le> roundScaled u" by (rule roundScaled_lower)
  moreover have "roundScaled t \<le> 2 ^ (53 + shiftOf t)" by (rule roundScaled_upper)
  moreover from lt have "(2::int) ^ (53 + shiftOf t) \<le> 2 ^ (52 + shiftOf u)"
    by (intro power_increasing) simp_all
  ultimately show ?thesis by linarith
qed

lemma roundScaled_exact:
  assumes "t = of_int n * 2 ^ k" and "n < 2 ^ 53" and "0 < k \<Longrightarrow> 2 ^ 52 \<le> n"
  shows "roundScaled t = n * 2 ^ k"
proof -
  have "t < 2 ^ (53 + k)"
  proof -
    from assms(2) have "(of_int n :: rat) < 2 ^ 53"
      by (metis of_int_less_numeral_power_cancel_iff)
    then have "(of_int n :: rat) * 2 ^ k < 2 ^ 53 * 2 ^ k" by simp
    with assms(1) show ?thesis by (simp add: power_add)
  qed
  moreover have "2 ^ (52 + k) \<le> t" if "0 < k"
  proof -
    from assms(3) that have "(2 ^ 52 :: rat) \<le> of_int n"
      by (metis numeral_power_le_of_int_cancel_iff)
    then have "(2 ^ 52 :: rat) * 2 ^ k \<le> of_int n * 2 ^ k" by simp
    with assms(1) show ?thesis by (simp add: power_add)
  qed
  ultimately have "shiftOf t = k" by (rule shiftOf_eqI)
  then show ?thesis using assms(1) by (simp add: roundScaled_def roundHalfEven_of_int)
qed


text \<open>A rounded magnitude is not changed by rounding it again.\<close>

lemma roundScaled_idem: "roundScaled (of_int (roundScaled t)) = roundScaled t"
proof -
  let ?s = "shiftOf t"
  let ?n = "roundHalfEven (t / 2 ^ ?s)"
  have v: "roundScaled t = ?n * 2 ^ ?s" by (simp add: roundScaled_def)
  have up: "?n * 2 ^ ?s \<le> 2 ^ 53 * 2 ^ ?s"
    using roundScaled_upper [of t] by (simp add: roundScaled_def power_add)
  then have n_le: "?n \<le> 2 ^ 53" by simp
  show ?thesis
  proof (cases "?n = 2 ^ 53")
    case True
    have "roundScaled (of_int (2 ^ 52) * 2 ^ Suc ?s) = 2 ^ 52 * 2 ^ Suc ?s"
      by (rule roundScaled_exact [where n = "2 ^ 52" and k = "Suc ?s"]) simp_all
    moreover have "(of_int (roundScaled t) :: rat) = of_int (2 ^ 52) * 2 ^ Suc ?s"
      using True by (simp add: v)
    ultimately show ?thesis using True by (simp add: v)
  next
    case False
    with n_le have lt: "?n < 2 ^ 53" by simp
    have "roundScaled (of_int ?n * 2 ^ ?s) = ?n * 2 ^ ?s"
    proof (rule roundScaled_exact [where n = ?n and k = ?s])
      show "(of_int ?n :: rat) * 2 ^ ?s = of_int ?n * 2 ^ ?s" by simp
      show "?n < 2 ^ 53" by (rule lt)
      assume "0 < ?s"
      then have "2 ^ 52 * 2 ^ ?s \<le> ?n * 2 ^ ?s"
        using roundScaled_lower [of t] by (simp add: roundScaled_def power_add)
      then show "2 ^ 52 \<le> ?n" by simp
    qed
    then show ?thesis by (simp add: v)
  qed
qed


lemma roundMagnitude_scaled:
  "roundMagnitude a * 2 ^ minExponent = of_int (roundScaled (a * 2 ^ minExponent))"
  by (simp add: roundMagnitude_def)

lemma roundMagnitude_nonneg: "0 \<le> a \<Longrightarrow> 0 \<le> roundMagnitude a"
  by (simp add: roundMagnitude_def roundScaled_nonneg)

lemma roundMagnitude_mono: "a \<le> b \<Longrightarrow> roundMagnitude a \<le> roundMagnitude b"
  by (simp add: roundMagnitude_def divide_right_mono roundScaled_mono)

lemma roundMagnitude_idem: "roundMagnitude (roundMagnitude a) = roundMagnitude a"
  unfolding roundMagnitude_def [of "roundMagnitude a"] roundMagnitude_scaled roundScaled_idem
  by (simp add: roundMagnitude_def)

lemma roundScaled_int:
  assumes "0 \<le> n" and "n < 2 ^ 53"
  shows "roundScaled (of_int n * 2 ^ k) = n * 2 ^ k"
proof -
  define t :: rat where "t = of_int n * 2 ^ k"
  define s where "s = shiftOf t"
  have "s \<le> k"
  proof -
    from assms(2) have "(of_int n :: rat) < 2 ^ 53"
      by (metis of_int_less_numeral_power_cancel_iff)
    then have "t < 2 ^ 53 * 2 ^ k" by (simp add: t_def)
    then show ?thesis by (simp add: s_def shiftOf_le_iff power_add)
  qed
  then obtain d where d: "k = s + d" using le_Suc_ex by blast
  have "t = of_int (n * 2 ^ d) * 2 ^ s" by (simp add: t_def d power_add)
  then have "t / 2 ^ s = of_int (n * 2 ^ d)" by simp
  then have "roundHalfEven (t / 2 ^ s) = n * 2 ^ d" by (simp only: roundHalfEven_of_int)
  then have "roundScaled t = n * 2 ^ d * 2 ^ s" by (simp add: roundScaled_def s_def)
  also have "\<dots> = n * 2 ^ k" by (simp add: d power_add)
  finally show ?thesis by (simp add: t_def)
qed

lemma minExponent_split:
  assumes "j \<le> 1074"
  obtains d where "(2::rat) ^ minExponent = 2 ^ j * 2 ^ d"
proof -
  from assms obtain d where "minExponent = j + d"
    unfolding minExponent_def using le_Suc_ex by blast
  then have "(2::rat) ^ minExponent = 2 ^ j * 2 ^ d" by (metis power_add)
  then show thesis by (rule that)
qed

text \<open>A number with at most 53 significant bits above the smallest step is kept.\<close>

lemma roundMagnitude_dyadic:
  assumes "0 \<le> n" and "n < 2 ^ 53" and "j \<le> 1074"
  shows "roundMagnitude (of_int n / 2 ^ j) = of_int n / 2 ^ j"
proof -
  from assms(3) obtain d where p: "(2::rat) ^ minExponent = 2 ^ j * 2 ^ d"
    by (rule minExponent_split)
  have "(of_int n :: rat) / 2 ^ j * (2 ^ j * 2 ^ d) = of_int n * 2 ^ d" by simp
  then have "roundScaled (of_int n / 2 ^ j * (2 ^ j * 2 ^ d)) = n * 2 ^ d"
    using roundScaled_int [OF assms(1,2), of d] by simp
  then have "roundMagnitude (of_int n / 2 ^ j) = of_int (n * 2 ^ d) / (2 ^ j * 2 ^ d)"
    by (simp only: roundMagnitude_def p)
  then show ?thesis by simp
qed

text \<open>Rounding with the exponent given.\<close>

lemma roundMagnitude_small:
  assumes "j \<le> 1074" and "a * 2 ^ j < 2 ^ 53" and "j < 1074 \<Longrightarrow> 2 ^ 52 \<le> a * 2 ^ j"
  shows "roundMagnitude a = of_int (roundHalfEven (a * 2 ^ j)) / 2 ^ j"
proof -
  from assms(1) obtain d where d: "minExponent = j + d"
    unfolding minExponent_def using le_Suc_ex by blast
  then have p: "(2::rat) ^ minExponent = 2 ^ j * 2 ^ d" by (metis power_add)
  define t where "t = a * 2 ^ j * 2 ^ d"
  have "shiftOf t = d"
  proof (rule shiftOf_eqI)
    from assms(2) have "a * 2 ^ j * 2 ^ d < 2 ^ 53 * 2 ^ d" by simp
    then show "t < 2 ^ (53 + d)" by (simp only: t_def power_add)
    assume "0 < d"
    with d have "j < 1074" by (simp add: minExponent_def)
    then have "2 ^ 52 \<le> a * 2 ^ j" by (rule assms(3))
    then have "2 ^ 52 * 2 ^ d \<le> a * 2 ^ j * 2 ^ d" by simp
    then show "2 ^ (52 + d) \<le> t" by (simp only: t_def power_add)
  qed
  moreover have "t / 2 ^ d = a * 2 ^ j" by (simp add: t_def)
  ultimately have "roundScaled t = roundHalfEven (a * 2 ^ j) * 2 ^ d"
    by (simp only: roundScaled_def)
  moreover have "a * (2 ^ j * 2 ^ d) = t" by (simp add: t_def)
  ultimately have "roundMagnitude a = of_int (roundHalfEven (a * 2 ^ j) * 2 ^ d) / (2 ^ j * 2 ^ d)"
    by (simp only: roundMagnitude_def p)
  then show ?thesis by simp
qed



lemma two_53_less_max: "(2::rat) ^ 53 < 2 ^ maxExponent"
  unfolding maxExponent_def by (rule power_strict_increasing) simp_all

lemma max_pos: "(0::rat) < 2 ^ maxExponent"
  by simp

lemma roundDouble_Fin:
  "0 \<le> x \<Longrightarrow> roundMagnitude x < 2 ^ maxExponent \<Longrightarrow> roundDouble x = Fin (roundMagnitude x)"
  by (simp add: roundDouble_def Let_def not_le)

lemma roundMagnitude_zero: "roundMagnitude 0 = 0"
  using roundMagnitude_dyadic [of 0 0] by simp

lemma roundDouble_zero: "roundDouble 0 = Fin 0"
  using roundDouble_Fin [of 0] max_pos by (simp add: roundMagnitude_zero)

lemma roundDouble_nonneg: "0 \<le> x \<Longrightarrow> nonNegNum (roundDouble x)"
  using max_pos
  by (cases "x = 0")
    (simp_all add: roundDouble_def Let_def nonNegNum_def roundMagnitude_nonneg
      roundMagnitude_zero not_le)

lemma roundDouble_mono:
  assumes "0 \<le> x" and "x \<le> y"
  shows "jsle (roundDouble x) (roundDouble y)"
proof -
  from assms have "roundMagnitude \<bar>x\<bar> \<le> roundMagnitude \<bar>y\<bar>"
    by (intro roundMagnitude_mono) simp
  moreover from assms have "0 \<le> y" by simp
  ultimately show ?thesis using assms max_pos
    by (cases "x = 0"; cases "y = 0")
      (auto simp add: roundDouble_def Let_def roundMagnitude_zero not_le)
qed

lemma roundDouble_idem:
  assumes "roundDouble x = Fin r"
  shows "roundDouble r = Fin r"
proof -
  let ?m = "roundMagnitude \<bar>x\<bar>"
  from assms have small: "?m < 2 ^ maxExponent" and r: "r = (if 0 \<le> x then ?m else - ?m)"
    by (auto simp add: roundDouble_def Let_def not_le split: if_splits)
  have m0: "0 \<le> ?m" by (simp add: roundMagnitude_nonneg)
  with r have abs: "\<bar>r\<bar> = ?m" by (simp split: if_splits)
  then have mm: "roundMagnitude \<bar>r\<bar> = ?m" by (simp add: roundMagnitude_idem)
  show ?thesis
  proof (cases "0 \<le> r")
    case True
    with abs have "r = ?m" by simp
    with mm small True show ?thesis by (simp add: roundDouble_def Let_def not_le)
  next
    case False
    with abs have "r = - ?m" by simp
    with mm small False show ?thesis by (simp add: roundDouble_def Let_def not_le)
  qed
qed



lemma roundDouble_dyadic:
  assumes "0 \<le> n" and "n < 2 ^ 53" and "j \<le> 1074"
  shows "roundDouble (of_int n / 2 ^ j) = Fin (of_int n / 2 ^ j)"
proof -
  let ?a = "(of_int n :: rat) / 2 ^ j"
  have m: "roundMagnitude ?a = ?a" using assms by (rule roundMagnitude_dyadic)
  from assms(1) have a0: "0 \<le> ?a" by simp
  from assms(2) have "(of_int n :: rat) < 2 ^ 53"
    by (metis of_int_less_numeral_power_cancel_iff)
  moreover have "?a \<le> of_int n" using assms(1) by (simp add: divide_le_eq mult_le_cancel_left1)
  ultimately have "?a < 2 ^ maxExponent" using two_53_less_max by linarith
  with m a0 show ?thesis using roundDouble_Fin [of ?a] by simp
qed

lemma roundDouble_small:
  assumes "0 \<le> a" and "j \<le> 1074" and "a * 2 ^ j < 2 ^ 53"
    and "j < 1074 \<Longrightarrow> 2 ^ 52 \<le> a * 2 ^ j"
  shows "roundDouble a = Fin (of_int (roundHalfEven (a * 2 ^ j)) / 2 ^ j)"
proof -
  let ?n = "roundHalfEven (a * 2 ^ j)"
  have m: "roundMagnitude a = of_int ?n / 2 ^ j"
    using assms(2,3,4) by (rule roundMagnitude_small)
  have "?n \<le> roundHalfEven (of_int (2 ^ 53))"
    using assms(3) by (intro roundHalfEven_mono) simp
  then have "?n \<le> 2 ^ 53" by (simp only: roundHalfEven_of_int)
  then have n53: "(of_int ?n :: rat) \<le> 2 ^ 53"
    by (metis of_int_le_numeral_power_cancel_iff)
  have "roundHalfEven (of_int 0) \<le> ?n"
    using assms(1) by (intro roundHalfEven_mono) simp
  then have "0 \<le> ?n" by (simp only: roundHalfEven_of_int)
  then have "0 \<le> (of_int ?n :: rat)" by simp
  then have "(of_int ?n :: rat) / 2 ^ j \<le> of_int ?n"
    by (simp add: divide_le_eq mult_le_cancel_left1)
  with n53 have "(of_int ?n :: rat) / 2 ^ j < 2 ^ maxExponent"
    using two_53_less_max by linarith
  with m assms(1) show ?thesis using roundDouble_Fin [of a] by simp
qed

text \<open>The floor of a quotient of numerals, for the evaluation of concrete roundings.\<close>

lemma floor_rat_numeral: "\<lfloor>(numeral a :: rat) / numeral b\<rfloor> = numeral a div numeral b"
  using floor_divide_of_int_eq [of "numeral a" "numeral b", where ?'a = rat] by simp

text \<open>Some roundings: dyadic numbers are kept, \<open>0.4\<close> and \<open>0.1\<close> are not doubles.\<close>

lemma roundDouble_half: "roundDouble (1 / 2) = Fin (1 / 2)"
  using roundDouble_dyadic [of 1 1] by simp

lemma roundDouble_one: "roundDouble 1 = Fin 1"
  using roundDouble_dyadic [of 1 0] by simp

lemma roundDouble_two_fifths: "roundDouble (2 / 5) = Fin (3602879701896397 / 9007199254740992)"
  using roundDouble_small [of "2 / 5" 54] by (simp add: roundHalfEven_def Let_def floor_rat_numeral)

lemma roundDouble_fifth:
  "roundDouble (3602879701896397 / 18014398509481984) = Fin (3602879701896397 / 18014398509481984)"
  using roundDouble_dyadic [of 3602879701896397 54] by simp

lemma roundDouble_quarter: "roundDouble (1 / 4) = Fin (1 / 4)"
  using roundDouble_dyadic [of 1 2] by simp

lemma roundDouble_eighth: "roundDouble (1 / 8) = Fin (1 / 8)"
  using roundDouble_dyadic [of 1 3] by simp

lemma roundDouble_three_eighths: "roundDouble (3 / 8) = Fin (3 / 8)"
  using roundDouble_dyadic [of 3 3] by simp

lemma roundDouble_five_eighths: "roundDouble (5 / 8) = Fin (5 / 8)"
  using roundDouble_dyadic [of 5 3] by simp

lemma roundDouble_tenth:
  "roundDouble (1 / 10) = Fin (3602879701896397 / 36028797018963968)"
  using roundDouble_small [of "1 / 10" 56]
  by (simp add: roundHalfEven_def Let_def floor_rat_numeral)

lemma roundDouble_tenths_1:
  "roundDouble (3602879701896397 / 36028797018963968) = Fin (3602879701896397 / 36028797018963968)"
  using roundDouble_small [of "3602879701896397 / 36028797018963968" 56]
  by (simp add: roundHalfEven_def Let_def floor_rat_numeral)

lemma roundDouble_tenths_2:
  "roundDouble (3602879701896397 / 18014398509481984) = Fin (3602879701896397 / 18014398509481984)"
  using roundDouble_small [of "3602879701896397 / 18014398509481984" 55]
  by (simp add: roundHalfEven_def Let_def floor_rat_numeral)

lemma roundDouble_tenths_3:
  "roundDouble (10808639105689191 / 36028797018963968) = Fin (1351079888211149 / 4503599627370496)"
  using roundDouble_small [of "10808639105689191 / 36028797018963968" 54]
  by (simp add: roundHalfEven_def Let_def floor_rat_numeral)

lemma roundDouble_tenths_4:
  "roundDouble (14411518807585589 / 36028797018963968) = Fin (3602879701896397 / 9007199254740992)"
  using roundDouble_small [of "14411518807585589 / 36028797018963968" 54]
  by (simp add: roundHalfEven_def Let_def floor_rat_numeral)

lemma roundDouble_tenths_5:
  "roundDouble (18014398509481985 / 36028797018963968) = Fin (1 / 2)"
  using roundDouble_small [of "18014398509481985 / 36028797018963968" 53]
  by (simp add: roundHalfEven_def Let_def floor_rat_numeral)

lemma roundDouble_tenths_6:
  "roundDouble (21617278211378381 / 36028797018963968) = Fin (5404319552844595 / 9007199254740992)"
  using roundDouble_small [of "21617278211378381 / 36028797018963968" 53]
  by (simp add: roundHalfEven_def Let_def floor_rat_numeral)

lemma roundDouble_tenths_7:
  "roundDouble (25220157913274777 / 36028797018963968) = Fin (3152519739159347 / 4503599627370496)"
  using roundDouble_small [of "25220157913274777 / 36028797018963968" 53]
  by (simp add: roundHalfEven_def Let_def floor_rat_numeral)

lemma roundDouble_tenths_8:
  "roundDouble (28823037615171173 / 36028797018963968) = Fin (7205759403792793 / 9007199254740992)"
  using roundDouble_small [of "28823037615171173 / 36028797018963968" 53]
  by (simp add: roundHalfEven_def Let_def floor_rat_numeral)

lemma roundDouble_tenths_9:
  "roundDouble (32425917317067569 / 36028797018963968) = Fin (2026619832316723 / 2251799813685248)"
  using roundDouble_small [of "32425917317067569 / 36028797018963968" 53]
  by (simp add: roundHalfEven_def Let_def floor_rat_numeral)

lemma roundDouble_tenths_10:
  "roundDouble (36028797018963965 / 36028797018963968) = Fin (9007199254740991 / 9007199254740992)"
  using roundDouble_small [of "36028797018963965 / 36028797018963968" 53]
  by (simp add: roundHalfEven_def Let_def floor_rat_numeral)




section \<open>Arithmetic on numbers that are not negative\<close>

lemma nonNegNum_cases:
  assumes "nonNegNum v"
  obtains r where "v = Fin r" and "0 \<le> r" | "v = PosInf"
  using assms by (cases v) (simp_all add: nonNegNum_def)

lemma nonNegNum_Fin: "nonNegNum (Fin r) \<longleftrightarrow> 0 \<le> r"
  by (simp add: nonNegNum_def)

lemma jsle_nonNeg: "nonNegNum a \<Longrightarrow> jsle a b \<Longrightarrow> nonNegNum b"
  by (cases a; cases b) (simp_all add: nonNegNum_def)

lemma jsle_PosInf: "v \<noteq> NaN \<Longrightarrow> jsle v PosInf"
  by (cases v) simp_all

lemma jsadd_nonNeg: "nonNegNum a \<Longrightarrow> nonNegNum b \<Longrightarrow> nonNegNum (jsadd a b)"
  by (cases a; cases b) (simp_all add: nonNegNum_def roundDouble_nonneg [unfolded nonNegNum_def])

lemma jsadd_mono:
  assumes "nonNegNum a" and "nonNegNum b" and "jsle a a'" and "jsle b b'"
  shows "jsle (jsadd a b) (jsadd a' b')"
proof -
  from assms have a': "nonNegNum a'" and b': "nonNegNum b'" by (auto intro: jsle_nonNeg)
  show ?thesis
  proof (cases "a' = PosInf \<or> b' = PosInf")
    case True
    then have "jsadd a' b' = PosInf" using a' b'
      by (cases a'; cases b') (simp_all add: nonNegNum_def)
    moreover have "jsadd a b \<noteq> NaN"
      using jsadd_nonNeg [OF assms(1,2)] by (auto simp add: nonNegNum_def)
    ultimately show ?thesis by (simp add: jsle_PosInf)
  next
    case False
    with a' b' obtain x' y' where x': "a' = Fin x'" and y': "b' = Fin y'"
      by (cases a'; cases b') (simp_all add: nonNegNum_def)
    with assms obtain x y where x: "a = Fin x" "0 \<le> x" "x \<le> x'"
      and y: "b = Fin y" "0 \<le> y" "y \<le> y'"
      by (cases a; cases b) (simp_all add: nonNegNum_def)
    then have "jsle (roundDouble (x + y)) (roundDouble (x' + y'))"
      by (intro roundDouble_mono) simp_all
    with x y x' y' show ?thesis by simp
  qed
qed

lemma jsmul_nonNeg: "nonNegNum a \<Longrightarrow> 0 < p \<Longrightarrow> nonNegNum (jsmul a (Fin p))"
  by (cases a) (simp_all add: nonNegNum_def roundDouble_nonneg [unfolded nonNegNum_def])

lemma jsmul_mono:
  assumes "nonNegNum a" and "jsle a a'" and "0 < p"
  shows "jsle (jsmul a (Fin p)) (jsmul a' (Fin p))"
proof (cases a')
  case PosInf
  moreover have "jsmul a (Fin p) \<noteq> NaN"
    using jsmul_nonNeg [OF assms(1,3)] by (auto simp add: nonNegNum_def)
  ultimately show ?thesis using assms(3) by (simp add: jsle_PosInf)
next
  case (Fin x')
  with assms obtain x where x: "a = Fin x" "0 \<le> x" "x \<le> x'"
    by (cases a) (simp_all add: nonNegNum_def)
  then have "jsle (roundDouble (x * p)) (roundDouble (x' * p))"
    using assms(3) by (intro roundDouble_mono) (simp_all add: mult_right_mono)
  with x Fin show ?thesis by simp
next
  case NaN
  with assms(2) show ?thesis by (cases a) simp_all
next
  case NegInf
  with assms(1,2) show ?thesis by (cases a) (simp_all add: nonNegNum_def)
qed

lemma jsmul_le_piece:
  assumes "nonNegNum a" and "jsle a (Fin 1)" and "0 \<le> p" and "roundDouble p = Fin p"
  shows "jsle (jsmul a (Fin p)) (Fin p)"
proof -
  from assms(1,2) obtain x where x: "a = Fin x" "0 \<le> x" "x \<le> 1"
    by (cases a) (simp_all add: nonNegNum_def)
  then have "jsle (roundDouble (x * p)) (roundDouble p)"
    using assms(3) by (intro roundDouble_mono) (simp_all add: mult_left_le_one_le)
  with x assms(4) show ?thesis by simp
qed

lemma roundDouble_le_one:
  assumes "0 \<le> x" and "x \<le> 1"
  shows "jsle (roundDouble x) (Fin 1)"
  using roundDouble_mono [OF assms] roundDouble_dyadic [of 1 0] by simp

section \<open>Properties of the aggregate progress\<close>

lemma pieceValue_Fin:
  assumes "files \<noteq> []"
  obtains p where "pieceValue files = Fin p" and "0 \<le> p" and "roundDouble p = Fin p"
proof -
  let ?x = "1 / of_nat (length files) :: rat"
  from assms have n: "(1::rat) \<le> of_nat (length files)"
    by (cases files) simp_all
  then have x: "0 \<le> ?x" "?x \<le> 1" by (simp_all add: divide_le_eq)
  have pv: "pieceValue files = roundDouble ?x"
    using assms by (simp add: pieceValue_def)
  from x have "jsle (roundDouble ?x) (Fin 1)" by (rule roundDouble_le_one)
  moreover from x(1) have "nonNegNum (roundDouble ?x)" by (rule roundDouble_nonneg)
  ultimately obtain p where p: "roundDouble ?x = Fin p" "0 \<le> p"
    by (cases "roundDouble ?x") (simp_all add: nonNegNum_def)
  from p(1) have "roundDouble p = Fin p" by (rule roundDouble_idem)
  with pv p show thesis by (intro that) simp_all
qed

lemma pieceValue_pos:
  assumes "files \<noteq> []" and "arrayLength files"
  obtains p where "pieceValue files = Fin p" and "0 < p" and "roundDouble p = Fin p"
proof -
  from assms(1) obtain p where p: "pieceValue files = Fin p" "0 \<le> p" "roundDouble p = Fin p"
    by (rule pieceValue_Fin)
  let ?x = "1 / of_nat (length files) :: rat"
  from assms(1) have n: "(1::rat) \<le> of_nat (length files)"
    by (cases files) simp_all
  have pv: "pieceValue files = roundDouble ?x" using assms(1) by (simp add: pieceValue_def)
  define N :: rat where "N = of_nat (length files)"
  from assms(2) have "N < 2 ^ 32"
    unfolding arrayLength_def N_def by (metis of_nat_less_numeral_power_cancel_iff)
  moreover from n have "1 \<le> N" by (simp add: N_def)
  ultimately have "1 / 2 ^ 32 \<le> 1 / N" by (intro frac_le) simp_all
  then have "1 / 2 ^ 32 \<le> ?x" by (simp only: N_def)
  then have "jsle (roundDouble (1 / 2 ^ 32)) (roundDouble ?x)"
    by (intro roundDouble_mono) simp_all
  moreover have "roundDouble (1 / 2 ^ 32) = Fin (1 / 2 ^ 32)"
    using roundDouble_dyadic [of 1 32] by simp
  moreover have "roundDouble ?x = Fin p" using pv p(1) by simp
  ultimately have "jsle (Fin (1 / 2 ^ 32)) (Fin p)" by (simp only:)
  then have "1 / 2 ^ 32 \<le> p" by (simp only: jsle.simps)
  then have "0 < p" by (simp add: less_le_trans [of 0 "1 / 2 ^ 32"])
  with p show thesis by (intro that)
qed


lemma reducer_contribution: "reducer pv acc f = jsadd acc (contribution pv f)"
  by (simp add: reducer_def contribution_def Let_def split: option.split)

lemma percentageProgress_contribution:
  "percentageProgress files
     = foldl (\<lambda>acc f. jsadd acc (contribution (pieceValue files) f)) (Fin 0) files"
  by (simp add: percentageProgress_def reducer_contribution [abs_def])

lemma specContribution_contribution:
  assumes "files \<noteq> []"
  shows "specContribution (length files) f = contribution (pieceValue files) f"
proof -
  from assms obtain p where p: "pieceValue files = Fin p"
    by (rule pieceValue_Fin)
  have "jsmul (jsdiv (Fin 0) (Fin t)) (Fin p) = Fin 0" if "t \<noteq> 0" for t
    using that by (simp add: roundDouble_zero)
  then show ?thesis
    using p by (auto simp add: specContribution_def contribution_def pieceValue_def
        split: option.split)
qed

lemma contribution_nonNeg:
  assumes "nonNegative f" and "0 < p"
  shows "nonNegNum (contribution (Fin p) f)"
proof (cases "done f \<or> bytesTotal f = None \<or> bytesTotal f = Some 0 \<or> bytesDownloaded f = 0")
  case True
  with assms(2) show ?thesis
    by (auto simp add: contribution_def nonNegNum_def split: option.split)
next
  case False
  then obtain t where t: "bytesTotal f = Some t" "t \<noteq> 0" by auto
  with assms(1) have "0 \<le> bytesDownloaded f / t" by (simp add: nonNegative_def)
  then have "nonNegNum (roundDouble (bytesDownloaded f / t))" by (rule roundDouble_nonneg)
  then have "nonNegNum (jsmul (roundDouble (bytesDownloaded f / t)) (Fin p))"
    using assms(2) by (rule jsmul_nonNeg)
  with False t show ?thesis by (simp add: contribution_def)
qed

lemma contribution_mono:
  assumes "dominates a b" and "nonNegative a" and "nonNegative b"
    and "0 < p" and "roundDouble p = Fin p"
  shows "jsle (contribution (Fin p) a) (contribution (Fin p) b)"
proof -
  have nb: "nonNegNum (contribution (Fin p) b)"
    using assms(3,4) by (rule contribution_nonNeg)
  have zero: "jsle (Fin 0) (contribution (Fin p) b)"
    using nb by (cases "contribution (Fin p) b") (simp_all add: nonNegNum_def)
  show ?thesis
  proof (cases "done a")
    case True
    with assms(1) have "done b" by (simp add: dominates_def)
    with True show ?thesis by (simp add: contribution_def)
  next
    case na: False
    show ?thesis
    proof (cases "bytesTotal a = None \<or> bytesTotal a = Some 0 \<or> bytesDownloaded a = 0")
      case True
      with na have "contribution (Fin p) a = Fin 0"
        by (auto simp add: contribution_def split: option.split)
      with zero show ?thesis by simp
    next
      case False
      then obtain t where t: "bytesTotal a = Some t" "t \<noteq> 0" and da: "bytesDownloaded a \<noteq> 0"
        by auto
      with assms(1) have tb: "bytesTotal b = Some t" by (auto simp add: dominates_def)
      from assms(2) t have tpos: "0 < t" and a0: "0 \<le> bytesDownloaded a"
        by (simp_all add: nonNegative_def)
      from assms(1) have le: "bytesDownloaded a \<le> bytesDownloaded b"
        by (simp add: dominates_def)
      with a0 da have db: "bytesDownloaded b \<noteq> 0" by simp
      have ca: "contribution (Fin p) a = jsmul (roundDouble (bytesDownloaded a / t)) (Fin p)"
        using na t da by (simp add: contribution_def)
      have qa: "0 \<le> bytesDownloaded a / t" using a0 tpos by simp
      then have nqa: "nonNegNum (roundDouble (bytesDownloaded a / t))"
        by (rule roundDouble_nonneg)
      show ?thesis
      proof (cases "done b")
        case True
        with na assms(1) tb have "bytesDownloaded b = t" by (simp add: dominates_def)
        with le tpos have "bytesDownloaded a / t \<le> 1" by simp
        with qa have "jsle (roundDouble (bytesDownloaded a / t)) (Fin 1)"
          by (rule roundDouble_le_one)
        with nqa have "jsle (jsmul (roundDouble (bytesDownloaded a / t)) (Fin p)) (Fin p)"
          using assms(4,5) by (intro jsmul_le_piece) simp_all
        with ca True show ?thesis by (simp add: contribution_def)
      next
        case nb': False
        from le tpos have "bytesDownloaded a / t \<le> bytesDownloaded b / t"
          by (simp add: divide_right_mono)
        with qa have "jsle (roundDouble (bytesDownloaded a / t)) (roundDouble (bytesDownloaded b / t))"
          by (rule roundDouble_mono)
        with nqa have "jsle (jsmul (roundDouble (bytesDownloaded a / t)) (Fin p))
            (jsmul (roundDouble (bytesDownloaded b / t)) (Fin p))"
          using assms(4) by (rule jsmul_mono)
        moreover have "contribution (Fin p) b = jsmul (roundDouble (bytesDownloaded b / t)) (Fin p)"
          using nb' tb t db by (simp add: contribution_def)
        ultimately show ?thesis using ca by simp
      qed
    qed
  qed
qed


lemma foldl_contribution_mono:
  assumes "list_all2 dominates xs ys" and "list_all nonNegative xs" and "list_all nonNegative ys"
    and "0 < p" and "roundDouble p = Fin p" and "nonNegNum acc" and "jsle acc acc'"
  shows "jsle (foldl (\<lambda>acc f. jsadd acc (contribution (Fin p) f)) acc xs)
              (foldl (\<lambda>acc f. jsadd acc (contribution (Fin p) f)) acc' ys)"
  using assms
proof (induction xs ys arbitrary: acc acc' rule: list_all2_induct)
  case Nil
  then show ?case by simp
next
  case (Cons x xs y ys)
  have "jsle (contribution (Fin p) x) (contribution (Fin p) y)"
    using Cons by (intro contribution_mono) simp_all
  moreover have nx: "nonNegNum (contribution (Fin p) x)"
    using Cons by (intro contribution_nonNeg) simp_all
  ultimately have "jsle (jsadd acc (contribution (Fin p) x)) (jsadd acc' (contribution (Fin p) y))"
    using Cons.prems by (intro jsadd_mono) simp_all
  moreover have "nonNegNum (jsadd acc (contribution (Fin p) x))"
    using Cons.prems nx by (intro jsadd_nonNeg) simp_all
  ultimately show ?case using Cons by simp
qed



lemma clamp_mono:
  "jsle x y \<Longrightarrow>
   jsle (Math_max (Fin 0) (Math_min x (Fin 100))) (Math_max (Fin 0) (Math_min y (Fin 100)))"
  by (cases x; cases y) (simp_all add: Math_max_def Math_min_def)


text \<open>
  Claim C1: for a non-empty file set \<open>getProgress\<close> returns the mean of the files'
  fractional completion multiplied by 100; for file A with 40 of 100 bytes and a fresh
  file B it returns 20.

  The code never multiplies by 100. At the two files of the claim it returns the mean
  itself: the double nearest to one fifth, which prints as \<open>0.2\<close>.
\<close>

theorem getProgress_resume_scenario:
  "getProgress
     [\<lparr>url = ''A'', bytesTotal = Some 100, bytesDownloaded = 40, done = False\<rparr>,
      \<lparr>url = ''B'', bytesTotal = None, bytesDownloaded = 0, done = False\<rparr>]
   = Fin (3602879701896397 / 18014398509481984)"
  by (simp add: getProgress_def percentageProgress_def pieceValue_def reducer_def
      Math_max_def Math_min_def roundDouble_half roundDouble_two_fifths roundDouble_fifth)


text \<open>
  Claim C2: in a set of \<open>N\<close> files each file adds to the sum before clamping exactly
  \<open>1/N\<close> if it is done, \<open>0\<close> if it is not done and its \<open>bytesTotal\<close> is unknown or
  zero, and \<open>(bytesDownloaded / bytesTotal) * (1/N)\<close> if it is not done and its
  \<open>bytesTotal\<close> is known and not zero; the sum before clamping is the sum of these
  shares, added from the left. Quotient, product and sum are those of JavaScript.
\<close>

theorem getProgress_contributions:
  assumes "files \<noteq> []"
  shows "percentageProgress files
           = foldl (\<lambda>acc f. jsadd acc (specContribution (length files) f)) (Fin 0) files
       \<and> pieceValue files = roundDouble (1 / of_nat (length files))
       \<and> (\<forall>f acc. done f \<longrightarrow>
            reducer (pieceValue files) acc f
              = jsadd acc (roundDouble (1 / of_nat (length files))))
       \<and> (\<forall>f acc. \<not> done f \<and> (bytesTotal f = None \<or> bytesTotal f = Some 0) \<longrightarrow>
            reducer (pieceValue files) acc f = jsadd acc (Fin 0))
       \<and> (\<forall>f acc tot. \<not> done f \<and> bytesTotal f = Some tot \<and> tot \<noteq> 0 \<longrightarrow>
            reducer (pieceValue files) acc f
              = jsadd acc (jsmul (roundDouble (bytesDownloaded f / tot))
                             (roundDouble (1 / of_nat (length files)))))"
proof -
  have pv: "pieceValue files = roundDouble (1 / of_nat (length files))"
    using assms by (simp add: pieceValue_def)
  have spec: "specContribution (length files) f = contribution (pieceValue files) f" for f
    using assms by (rule specContribution_contribution)
  have fold: "percentageProgress files
      = foldl (\<lambda>acc f. jsadd acc (specContribution (length files) f)) (Fin 0) files"
    by (simp only: spec percentageProgress_contribution)
  have red: "reducer (pieceValue files) acc f = jsadd acc (specContribution (length files) f)"
    for acc f
    by (simp only: spec reducer_contribution)
  have d: "\<forall>f acc. done f \<longrightarrow>
      reducer (pieceValue files) acc f = jsadd acc (roundDouble (1 / of_nat (length files)))"
    using assms by (simp add: red specContribution_def)
  have z: "\<forall>f acc. \<not> done f \<and> (bytesTotal f = None \<or> bytesTotal f = Some 0) \<longrightarrow>
      reducer (pieceValue files) acc f = jsadd acc (Fin 0)"
    by (auto simp add: red specContribution_def)
  have q: "\<forall>f acc tot. \<not> done f \<and> bytesTotal f = Some tot \<and> tot \<noteq> 0 \<longrightarrow>
      reducer (pieceValue files) acc f
        = jsadd acc (jsmul (roundDouble (bytesDownloaded f / tot))
                       (roundDouble (1 / of_nat (length files))))"
    using assms by (simp add: red specContribution_def)
  from fold pv d z q show ?thesis by (intro conjI)
qed

theorem getProgress_contributions_witness:
  "[\<lparr>url = ''A'', bytesTotal = Some 100, bytesDownloaded = 100, done = True\<rparr>,
    \<lparr>url = ''B'', bytesTotal = None, bytesDownloaded = 7, done = False\<rparr>,
    \<lparr>url = ''C'', bytesTotal = Some 300, bytesDownloaded = 150, done = False\<rparr>,
    \<lparr>url = ''D'', bytesTotal = Some 50, bytesDownloaded = 50, done = True\<rparr>] \<noteq> []
   \<and> percentageProgress
       [\<lparr>url = ''A'', bytesTotal = Some 100, bytesDownloaded = 100, done = True\<rparr>,
        \<lparr>url = ''B'', bytesTotal = None, bytesDownloaded = 7, done = False\<rparr>,
        \<lparr>url = ''C'', bytesTotal = Some 300, bytesDownloaded = 150, done = False\<rparr>,
        \<lparr>url = ''D'', bytesTotal = Some 50, bytesDownloaded = 50, done = True\<rparr>]
       = Fin (5 / 8)"
  using getProgress_contributions
    [of "[\<lparr>url = ''A'', bytesTotal = Some 100, bytesDownloaded = 100, done = True\<rparr>,
          \<lparr>url = ''B'', bytesTotal = None, bytesDownloaded = 7, done = False\<rparr>,
          \<lparr>url = ''C'', bytesTotal = Some 300, bytesDownloaded = 150, done = False\<rparr>,
          \<lparr>url = ''D'', bytesTotal = Some 50, bytesDownloaded = 50, done = True\<rparr>]"]
  by (simp add: specContribution_def roundDouble_quarter roundDouble_half roundDouble_eighth
      roundDouble_three_eighths roundDouble_five_eighths)


text \<open>
  Claim C6: when every file of the working set is done, \<open>getProgress\<close> returns 100.

  For the two finished files of the fresh-download scenario the code returns 1.
\<close>

theorem getProgress_fresh_download_done:
  "getProgress
     [\<lparr>url = ''A'', bytesTotal = Some 100, bytesDownloaded = 100, done = True\<rparr>,
      \<lparr>url = ''B'', bytesTotal = Some 300, bytesDownloaded = 300, done = True\<rparr>]
   = Fin 1"
  by (simp add: getProgress_def percentageProgress_def pieceValue_def reducer_def
      Math_max_def Math_min_def roundDouble_half roundDouble_one)


text \<open>
  Ten finished files give the sum of ten times \<open>0.1\<close>, which is
  \<open>0.9999999999999999\<close>.
\<close>

lemma getProgress_ten_done:
  "getProgress
     [\<lparr>url = ''A'', bytesTotal = Some 100, bytesDownloaded = 100, done = True\<rparr>,
      \<lparr>url = ''B'', bytesTotal = Some 100, bytesDownloaded = 100, done = True\<rparr>,
      \<lparr>url = ''C'', bytesTotal = Some 100, bytesDownloaded = 100, done = True\<rparr>,
      \<lparr>url = ''D'', bytesTotal = Some 100, bytesDownloaded = 100, done = True\<rparr>,
      \<lparr>url = ''E'', bytesTotal = Some 100, bytesDownloaded = 100, done = True\<rparr>,
      \<lparr>url = ''F'', bytesTotal = Some 100, bytesDownloaded = 100, done = True\<rparr>,
      \<lparr>url = ''G'', bytesTotal = Some 100, bytesDownloaded = 100, done = True\<rparr>,
      \<lparr>url = ''H'', bytesTotal = Some 100, bytesDownloaded = 100, done = True\<rparr>,
      \<lparr>url = ''I'', bytesTotal = Some 100, bytesDownloaded = 100, done = True\<rparr>,
      \<lparr>url = ''J'', bytesTotal = Some 100, bytesDownloaded = 100, done = True\<rparr>]
   = Fin (9007199254740991 / 9007199254740992)"
  by (simp add: getProgress_def percentageProgress_def pieceValue_def reducer_def
      Math_max_def Math_min_def
      roundDouble_tenth
      roundDouble_tenths_1
      roundDouble_tenths_2
      roundDouble_tenths_3
      roundDouble_tenths_4
      roundDouble_tenths_5
      roundDouble_tenths_6
      roundDouble_tenths_7
      roundDouble_tenths_8
      roundDouble_tenths_9
      roundDouble_tenths_10)

text \<open>
  Claim C9: for the empty file set \<open>getProgress\<close> does not fail and returns 0. The
  share \<open>1 / 0\<close> is \<open>Infinity\<close>, the reduction of the empty list is its start value 0,
  and the clamp leaves 0.
\<close>

theorem getProgress_empty:
  "pieceValue [] = PosInf \<and> percentageProgress [] = Fin 0 \<and> getProgress [] = Fin 0"
  by (simp add: getProgress_def percentageProgress_def pieceValue_def Math_max_def Math_min_def)


section \<open>Monotonicity of the aggregate progress\<close>

text \<open>
  Claim C4: \<open>getProgress\<close> is monotone in the per-file progress: for two file sets of
  the same length in which, position by position, the second state dominates the first,
  \<open>getProgress\<close> of the second set is not smaller than that of the first. The file
  sets are arrays of \<open>FileMeta\<close> records with byte counts that are not negative, as
  the data model has them.
\<close>

theorem getProgress_monotone:
  assumes "list_all2 dominates xs ys" and "list_all nonNegative xs"
    and "list_all nonNegative ys" and "arrayLength xs"
  shows "jsle (getProgress xs) (getProgress ys)"
proof (cases "xs = []")
  case True
  with assms(1) have "ys = []" by simp
  with True show ?thesis
    by (simp add: getProgress_def percentageProgress_def Math_max_def Math_min_def)
next
  case False
  from assms(1) have len: "length ys = length xs" by (simp add: list_all2_lengthD)
  then have pv: "pieceValue ys = pieceValue xs" by (simp add: pieceValue_def)
  from False obtain p where p: "pieceValue xs = Fin p" "0 < p" "roundDouble p = Fin p"
    using assms(4) by (rule pieceValue_pos)
  have "jsle (percentageProgress xs) (percentageProgress ys)"
    unfolding percentageProgress_contribution pv p(1)
    using assms(1,2,3) p(2,3) by (rule foldl_contribution_mono) (simp_all add: nonNegNum_Fin)
  then show ?thesis unfolding getProgress_def by (rule clamp_mono)
qed


theorem getProgress_monotone_witness:
  "list_all2 dominates
     [\<lparr>url = ''A'', bytesTotal = Some 100, bytesDownloaded = 40, done = False\<rparr>,
      \<lparr>url = ''B'', bytesTotal = None, bytesDownloaded = 0, done = False\<rparr>]
     [\<lparr>url = ''A'', bytesTotal = Some 100, bytesDownloaded = 100, done = True\<rparr>,
      \<lparr>url = ''B'', bytesTotal = Some 300, bytesDownloaded = 30, done = False\<rparr>]
   \<and> list_all nonNegative
     [\<lparr>url = ''A'', bytesTotal = Some 100, bytesDownloaded = 40, done = False\<rparr>,
      \<lparr>url = ''B'', bytesTotal = None, bytesDownloaded = 0, done = False\<rparr>]
   \<and> list_all nonNegative
     [\<lparr>url = ''A'', bytesTotal = Some 100, bytesDownloaded = 100, done = True\<rparr>,
      \<lparr>url = ''B'', bytesTotal = Some 300, bytesDownloaded = 30, done = False\<rparr>]
   \<and> arrayLength
     [\<lparr>url = ''A'', bytesTotal = Some 100, bytesDownloaded = 40, done = False\<rparr>,
      \<lparr>url = ''B'', bytesTotal = None, bytesDownloaded = 0, done = False\<rparr>]
   \<and> jsle
     (getProgress
       [\<lparr>url = ''A'', bytesTotal = Some 100, bytesDownloaded = 40, done = False\<rparr>,
        \<lparr>url = ''B'', bytesTotal = None, bytesDownloaded = 0, done = False\<rparr>])
     (getProgress
       [\<lparr>url = ''A'', bytesTotal = Some 100, bytesDownloaded = 100, done = True\<rparr>,
        \<lparr>url = ''B'', bytesTotal = Some 300, bytesDownloaded = 30, done = False\<rparr>])"
proof -
  let ?xs = "[\<lparr>url = ''A'', bytesTotal = Some 100, bytesDownloaded = 40, done = False\<rparr>,
      \<lparr>url = ''B'', bytesTotal = None, bytesDownloaded = 0, done = False\<rparr>]"
  let ?ys = "[\<lparr>url = ''A'', bytesTotal = Some 100, bytesDownloaded = 100, done = True\<rparr>,
      \<lparr>url = ''B'', bytesTotal = Some 300, bytesDownloaded = 30, done = False\<rparr>]"
  have d: "list_all2 dominates ?xs ?ys" by (simp add: dominates_def)
  have x: "list_all nonNegative ?xs" by (simp add: nonNegative_def)
  have y: "list_all nonNegative ?ys" by (simp add: nonNegative_def)
  have a: "arrayLength ?xs" by (simp add: arrayLength_def)
  from d x y a getProgress_monotone [OF d x y a] show ?thesis by blast
qed


section \<open>The range of the aggregate progress\<close>





section \<open>Properties of the merge\<close>

lemma lastWithUrl_snoc:
  "lastWithUrl (db @ [p]) u = (if url p = u then Some p else lastWithUrl db u)"
  by (simp add: lastWithUrl_def Let_def)

lemma dbFilesByUrl_snoc: "dbFilesByUrl (db @ [p]) = (dbFilesByUrl db)(url p \<mapsto> p)"
  by (simp add: dbFilesByUrl_def fromEntries_def)

text \<open>The object built from the stored records holds, under each url, the last record with it.\<close>

lemma dbFilesByUrl_lastWithUrl: "dbFilesByUrl db u = lastWithUrl db u"
proof (induction db rule: rev_induct)
  case Nil
  then show ?case by (simp add: dbFilesByUrl_def fromEntries_def lastWithUrl_def)
next
  case (snoc p db)
  then show ?case by (simp add: dbFilesByUrl_snoc lastWithUrl_snoc)
qed

lemma lastWithUrl_SomeD:
  assumes "lastWithUrl db u = Some p"
  shows "p \<in> set db \<and> url p = u"
proof -
  let ?ps = "filter (\<lambda>p. url p = u) db"
  from assms have ne: "?ps \<noteq> []" and p: "p = last ?ps"
    by (auto simp add: lastWithUrl_def Let_def split: if_splits)
  from ne have "last ?ps \<in> set ?ps" by (rule last_in_set)
  with p show ?thesis by simp
qed

lemma lastWithUrl_None_iff: "lastWithUrl db u = None \<longleftrightarrow> u \<notin> url ` set db"
  by (auto simp add: lastWithUrl_def Let_def filter_empty_conv)

lemma lastWithUrl_unique:
  assumes "urlIdentifies db" and "p \<in> set db"
  shows "lastWithUrl db (url p) = Some p"
proof -
  from assms(2) have "lastWithUrl db (url p) \<noteq> None" by (simp add: lastWithUrl_None_iff)
  then obtain q where q: "lastWithUrl db (url p) = Some q" by blast
  then have "q \<in> set db" and "url q = url p" using lastWithUrl_SomeD by blast+
  with assms have "q = p" by (simp add: urlIdentifies_def)
  with q show ?thesis by simp
qed

text \<open>Urls that are unique within the list identify the record.\<close>

lemma distinct_urlIdentifies: "distinct (map url db) \<Longrightarrow> urlIdentifies db"
  by (auto simp add: urlIdentifies_def distinct_map inj_on_def)

text \<open>So do the urls of a list of fresh stubs, also when a url occurs twice.\<close>

lemma freshStubs_urlIdentifies: "list_all isFreshStub files \<Longrightarrow> urlIdentifies files"
  by (auto simp add: urlIdentifies_def list_all_iff isFreshStub_def)

text \<open>The merge, entry by entry.\<close>

lemma merge_entry:
  "filesWithStateUpdatedFromDb files db =
     map (\<lambda>f. case lastWithUrl db (url f) of
                 Some p \<Rightarrow> Meta p
               | None \<Rightarrow> if url f \<in> set objectPrototypeKeys then Inherited (url f) else Meta f)
       files"
  by (simp add: filesWithStateUpdatedFromDb_def getProperty_def dbFilesByUrl_lastWithUrl
      split: option.split)

text \<open>
  The working set has the length and the order of the fresh list. Where the url of a
  fresh entry is not the name of a property of \<open>Object.prototype\<close>, the entry is
  replaced by the stored record with that url (the last one, should there be several) and
  kept when there is none.
\<close>

lemma merge_length: "length (filesWithStateUpdatedFromDb files db) = length files"
  by (simp add: filesWithStateUpdatedFromDb_def)

lemma merge_nth:
  assumes "i < length files" and "url (files ! i) \<notin> set objectPrototypeKeys"
  shows "filesWithStateUpdatedFromDb files db ! i =
     (case lastWithUrl db (url (files ! i)) of Some p \<Rightarrow> Meta p | None \<Rightarrow> Meta (files ! i))"
  using assms by (simp add: merge_entry split: option.split)

lemma merge_nth_stored:
  assumes "i < length files" and "urlIdentifies db" and "p \<in> set db"
    and "url p = url (files ! i)"
  shows "filesWithStateUpdatedFromDb files db ! i = Meta p"
  using assms lastWithUrl_unique [of db p] by (simp add: merge_entry)

text \<open>A stored record whose url is not in the fresh list is not in the working set.\<close>

lemma merge_drops:
  assumes "p \<in> set db" and "url p \<notin> url ` set files"
  shows "Meta p \<notin> set (filesWithStateUpdatedFromDb files db)"
proof
  assume "Meta p \<in> set (filesWithStateUpdatedFromDb files db)"
  then obtain f where f: "f \<in> set files"
    and e: "Meta p = (case lastWithUrl db (url f) of
                 Some p \<Rightarrow> Meta p
               | None \<Rightarrow> if url f \<in> set objectPrototypeKeys then Inherited (url f) else Meta f)"
    by (auto simp add: merge_entry)
  have "url p = url f"
  proof (cases "lastWithUrl db (url f)")
    case None
    with e show ?thesis by (simp split: if_splits)
  next
    case (Some q)
    with e have "q = p" by simp
    with Some show ?thesis using lastWithUrl_SomeD by blast
  qed
  with f assms(2) show False by blast
qed

text \<open>
  Claim C3: the merge at session start maps the fresh ordered file list to a working set
  of the same length and order, in which each fresh entry is replaced by the stored
  record with the same url when there is one and kept as the fresh stub otherwise; a
  stored record whose url is absent from the fresh list does not appear.

  The property read \<open>dbFilesByUrl[fileMeta.url]\<close> also finds what the object inherits
  from \<open>Object.prototype\<close>. For a fresh stub with the url \<open>constructor\<close> and no stored
  record the working set holds the inherited built-in, not the stub.
\<close>

theorem merge_inherited_property:
  "filesWithStateUpdatedFromDb
     [\<lparr>url = ''constructor'', bytesTotal = None, bytesDownloaded = 0, done = False\<rparr>] []
   = [Inherited ''constructor'']"
  by (simp add: filesWithStateUpdatedFromDb_def getProperty_def dbFilesByUrl_def
      fromEntries_def objectPrototypeKeys_def)

text \<open>
  Claim C5: the merge is idempotent: when the stored records are exactly the entries of
  the fresh list, the working set is the fresh list itself. The url identifies the entry
  in a fresh list, both when urls are unique, as the data model has it, and when all
  entries are fresh stubs.
\<close>

theorem merge_idempotent:
  assumes "urlIdentifies files"
  shows "filesWithStateUpdatedFromDb files files = map Meta files"
  using assms by (simp add: merge_entry lastWithUrl_unique)

theorem merge_idempotent_witness:
  "urlIdentifies
     [\<lparr>url = ''A'', bytesTotal = Some 100, bytesDownloaded = 40, done = False\<rparr>,
      \<lparr>url = ''toString'', bytesTotal = None, bytesDownloaded = 0, done = False\<rparr>]
   \<and> filesWithStateUpdatedFromDb
       [\<lparr>url = ''A'', bytesTotal = Some 100, bytesDownloaded = 40, done = False\<rparr>,
        \<lparr>url = ''toString'', bytesTotal = None, bytesDownloaded = 0, done = False\<rparr>]
       [\<lparr>url = ''A'', bytesTotal = Some 100, bytesDownloaded = 40, done = False\<rparr>,
        \<lparr>url = ''toString'', bytesTotal = None, bytesDownloaded = 0, done = False\<rparr>]
     = [Meta \<lparr>url = ''A'', bytesTotal = Some 100, bytesDownloaded = 40, done = False\<rparr>,
        Meta \<lparr>url = ''toString'', bytesTotal = None, bytesDownloaded = 0, done = False\<rparr>]"
proof -
  let ?files = "[\<lparr>url = ''A'', bytesTotal = Some 100, bytesDownloaded = 40, done = False\<rparr>,
      \<lparr>url = ''toString'', bytesTotal = None, bytesDownloaded = 0, done = False\<rparr>]"
  have u: "urlIdentifies ?files" by (simp add: urlIdentifies_def)
  from u merge_idempotent [OF u] show ?thesis by simp
qed


section \<open>Properties of the component\<close>

lemma stateAttr_attributeChangedCallback:
  "stateAttr (attributeChangedCallback tn name v c) = stateAttr c"
  by (simp add: attributeChangedCallback_def split: option.split jsnum.split)

lemma progressAttr_attributeChangedCallback:
  "progressAttr (attributeChangedCallback tn name v c) = progressAttr c"
  by (simp add: attributeChangedCallback_def split: option.split jsnum.split)

lemma stateAttr_state_set: "stateAttr (state_set tn s c) = Some s"
  by (simp add: state_set_def stateAttr_attributeChangedCallback)

lemma stateAttr_progress_set: "stateAttr (progress_set ps tn v c) = stateAttr c"
  by (simp add: progress_set_def Let_def stateAttr_attributeChangedCallback)

lemma state_after_setDownloadState:
  "state_get (setDownloadState ps tn c) =
     (if videoDone (getMeta c) = Some True then Some ''done''
      else if truthy (getProgress (internalFiles c)) then Some ''partial''
      else Some ''ready'')"
  by (simp add: setDownloadState_def state_get_def Let_def getMeta_def
      stateAttr_state_set stateAttr_progress_set)

text \<open>\<open>this.setMeta(await db.meta.get(videoId))\<close> with no stored record.\<close>

lemma getMeta_setMeta_absent: "videoDone (getMeta (setMeta None c)) = None"
  by (simp add: getMeta_def setMeta_def)

text \<open>
  Claim C8: when there is no stored \<open>VideoMeta\<close> record at session start the video
  counts as not done: \<open>getMeta\<close> gives an object whose \<open>done\<close> is not true, and
  \<open>setDownloadState\<close> then never sets the state to \<open>done\<close> (it sets \<open>partial\<close> or
  \<open>ready\<close>).
\<close>

theorem absent_meta_not_done:
  assumes "internalMeta c = None"
  shows "videoDone (getMeta c) \<noteq> Some True
       \<and> state_get (setDownloadState ps tn c) \<noteq> Some ''done''
       \<and> (state_get (setDownloadState ps tn c) = Some ''partial''
          \<or> state_get (setDownloadState ps tn c) = Some ''ready'')"
proof -
  from assms have "videoDone (getMeta c) = None" by (simp add: getMeta_def)
  then show ?thesis by (simp add: state_after_setDownloadState)
qed

theorem absent_meta_not_done_witness:
  "internalMeta
     \<lparr>stateAttr = Some ''not-initialized'', progressAttr = None, internalMeta = None,
      internalFiles =
        [\<lparr>url = ''A'', bytesTotal = Some 100, bytesDownloaded = 40, done = False\<rparr>,
         \<lparr>url = ''B'', bytesTotal = None, bytesDownloaded = 0, done = False\<rparr>],
      buttonDisabled = False, buttonInnerHTML = ''Download for Offline playback'',
      progressElementValue = Some 0\<rparr> = None
   \<and> state_get (setDownloadState (\<lambda>s. NaN) (\<lambda>s. NaN)
       \<lparr>stateAttr = Some ''not-initialized'', progressAttr = None, internalMeta = None,
        internalFiles =
          [\<lparr>url = ''A'', bytesTotal = Some 100, bytesDownloaded = 40, done = False\<rparr>,
           \<lparr>url = ''B'', bytesTotal = None, bytesDownloaded = 0, done = False\<rparr>],
        buttonDisabled = False, buttonInnerHTML = ''Download for Offline playback'',
        progressElementValue = Some 0\<rparr>) \<noteq> Some ''done''"
proof -
  let ?c = "\<lparr>stateAttr = Some ''not-initialized'', progressAttr = None, internalMeta = None,
      internalFiles =
        [\<lparr>url = ''A'', bytesTotal = Some 100, bytesDownloaded = 40, done = False\<rparr>,
         \<lparr>url = ''B'', bytesTotal = None, bytesDownloaded = 0, done = False\<rparr>],
      buttonDisabled = False, buttonInnerHTML = ''Download for Offline playback'',
      progressElementValue = Some 0\<rparr>"
  have m: "internalMeta ?c = None" by simp
  from m absent_meta_not_done [OF m, of "\<lambda>s. NaN" "\<lambda>s. NaN"] show ?thesis by blast
qed

lemma progressAttr_progress_set:
  "progressAttr (progress_set ps tn v c) =
     Some (JNum (Math_min (Math_max (Fin 0) (parseFloat ps v)) (Fin 100)))"
  by (simp add: progress_set_def Let_def progressAttr_attributeChangedCallback)

lemma clamp_progress_Fin:
  "Math_min (Math_max (Fin 0) (Fin r)) (Fin 100) = Fin (min (max 0 r) 100)"
  by (simp add: Math_max_def Math_min_def max_def min_def)

lemma clamp_progress_NaN: "Math_min (Math_max (Fin 0) NaN) (Fin 100) = NaN"
  by (simp add: Math_max_def Math_min_def)

lemma progress_get_set:
  "progress_get ps (progress_set ps tn v c) =
     Math_min (Math_max (Fin 0) (Math_min (Math_max (Fin 0) (parseFloat ps v)) (Fin 100)))
       (Fin 100)"
  by (simp add: progress_get_def Let_def parseFloat_def progressAttr_progress_set)

lemma progress_set_twice:
  "progress_set ps tn v (progress_set ps tn v c) = progress_set ps tn v c"
  by (auto simp add: progress_set_def Let_def attributeChangedCallback_def
      split: option.split jsnum.split)

text \<open>
  Claim C10: for every finite number \<open>v\<close>, assigning \<open>v\<close> to \<open>progress\<close> and reading
  \<open>progress\<close> back gives \<open>v\<close> clamped to the closed range from 0 to 100; assigning
  twice equals assigning once, be it the same value again or the value read back. A
  value in which \<open>parseFloat\<close> finds no number reads back as \<open>NaN\<close>.
\<close>

theorem progress_set_get:
  "progress_get ps (progress_set ps tn (JNum (Fin v)) c) = Fin (min (max 0 v) 100)
   \<and> progress_set ps tn (JNum (Fin v)) (progress_set ps tn (JNum (Fin v)) c)
       = progress_set ps tn (JNum (Fin v)) c
   \<and> progress_set ps tn (JNum (progress_get ps (progress_set ps tn (JNum (Fin v)) c))) c
       = progress_set ps tn (JNum (Fin v)) c
   \<and> (parseFloat ps w = NaN \<longrightarrow> progress_get ps (progress_set ps tn w c) = NaN)"
proof -
  have g: "progress_get ps (progress_set ps tn (JNum (Fin v)) c) = Fin (min (max 0 v) 100)"
    by (simp add: progress_get_set parseFloat_def clamp_progress_Fin)
  have "progress_set ps tn (JNum (Fin (min (max 0 v) 100))) c
      = progress_set ps tn (JNum (Fin v)) c"
    by (simp add: progress_set_def parseFloat_def clamp_progress_Fin Let_def)
  with g show ?thesis
    by (simp add: progress_set_twice progress_get_set clamp_progress_NaN)
qed

theorem progress_set_get_witness:
  "parseFloat (\<lambda>s. NaN) (JStr ''abc'') = NaN
   \<and> progress_get (\<lambda>s. NaN) (progress_set (\<lambda>s. NaN) (\<lambda>s. NaN) (JStr ''abc'')
       \<lparr>stateAttr = Some ''partial'', progressAttr = None, internalMeta = None,
        internalFiles = [], buttonDisabled = False, buttonInnerHTML = [],
        progressElementValue = Some 0\<rparr>) = NaN
   \<and> progress_get (\<lambda>s. NaN) (progress_set (\<lambda>s. NaN) (\<lambda>s. NaN) (JNum (Fin 250))
       \<lparr>stateAttr = Some ''partial'', progressAttr = None, internalMeta = None,
        internalFiles = [], buttonDisabled = False, buttonInnerHTML = [],
        progressElementValue = Some 0\<rparr>) = Fin 100"
proof -
  have p: "parseFloat (\<lambda>s. NaN) (JStr ''abc'') = NaN" by (simp add: parseFloat_def)
  from p progress_set_get [of "\<lambda>s. NaN" "\<lambda>s. NaN" 250
      "\<lparr>stateAttr = Some ''partial'', progressAttr = None, internalMeta = None,
        internalFiles = [], buttonDisabled = False, buttonInnerHTML = [],
        progressElementValue = Some 0\<rparr>" "JStr ''abc''"]
  show ?thesis by simp
qed

text \<open>
  The progress element: a progress that is \<open>NaN\<close> is not stored in it, a finite one is
  stored clamped.
\<close>

lemma progress_set_NaN_element:
  "parseFloat ps w = NaN \<Longrightarrow>
   progressElementValue (progress_set ps tn w c) = progressElementValue c"
  by (simp add: progress_set_def Let_def clamp_progress_NaN attributeChangedCallback_def
      stringToNumber_def split: option.split)

lemma progress_set_Fin_element:
  "progressElementValue c = Some old \<Longrightarrow>
   progressElementValue (progress_set ps tn (JNum (Fin v)) c) = Some (min (max 0 v) 100)"
  by (simp add: progress_set_def Let_def clamp_progress_Fin attributeChangedCallback_def
      stringToNumber_def parseFloat_def)

end
